theory Spec2Isabelle
  imports Complex_Main "HOL-Library.Word" "HOL-Library.Sublist"
begin

section \<open>Data model (Config.h)\<close>

text \<open>
  The firmware targets the ESP32, where \<^verbatim>\<open>unsigned long\<close> is a 32-bit unsigned
  integer: it is modelled as \<^typ>\<open>32 word\<close>, whose subtraction wraps around.
  A value of the C type \<^verbatim>\<open>float\<close> is a \<^typ>\<open>real\<close>. In the anomaly detection, whose
  result turns on it, every operation is rounded to binary32 as the hardware does
  (\<open>f32\<close> below); elsewhere the arithmetic is exact. The two operations of the code
  that can leave the reals have results of their own: the square root of a negative
  number in \<open>calculateRMSCurrent\<close> is \<open>None\<close>, and the division by a zero mean in
  \<open>analyzeTrend\<close> is an infinite or undefined percentage. Every other divisor is a
  constant or is shown to be positive. Output on the serial console is not part of
  the model, except where a function reports its result only there (\<open>analyzeTrend\<close>).
\<close>

type_synonym ulong = "32 word"

subsection \<open>Binary floating point\<close>





subsection \<open>Constants and readings\<close>

definition MAINS_VOLTAGE :: real where "MAINS_VOLTAGE = 230"
definition CT_BURDEN_RESISTOR :: real where "CT_BURDEN_RESISTOR = 33"
definition CT_TURNS_RATIO :: real where "CT_TURNS_RATIO = 2000"
definition MAX_RETRY_ATTEMPTS :: nat where "MAX_RETRY_ATTEMPTS = 3"
definition DATA_BUFFER_SIZE :: nat where "DATA_BUFFER_SIZE = 100"
definition TREND_WINDOW_SIZE :: nat where "TREND_WINDOW_SIZE = 10"
definition DEVICE_NAME :: string where "DEVICE_NAME = ''ESP32_Power_Monitor''"
definition DEFAULT_BACKEND_URL :: string where
  "DEFAULT_BACKEND_URL = ''http://192.168.1.100:8000/api/power-data''"

text \<open>
  Modelled from the spec: \<^verbatim>\<open>HTTP_CODE_OK\<close> is declared by the HTTPClient library, whose
  header is not among the sources; the specification calls it the "OK" status code of
  the destination, which is 200.
\<close>

definition HTTP_CODE_OK :: int where "HTTP_CODE_OK = 200"

text \<open>
  The field \<^verbatim>\<open>power\<close> of \<^verbatim>\<open>PowerData\<close> is named \<open>power_watts\<close> here, since \<open>power\<close>
  is the exponentiation of HOL.
\<close>

record PowerData =
  timestamp :: ulong
  current :: real
  voltage :: real
  power_watts :: real
  energy :: real
  anomaly :: bool

section \<open>DataManager (DataManager.h, DataManager.cpp)\<close>

subsection \<open>The environment: transport and clock delays\<close>

text \<open>
  A JSON document is the list of its members in insertion order. The serialised text
  is produced by the ArduinoJson library; the model posts the document itself.
\<close>

datatype json_value = JInt ulong | JFloat real | JString string

type_synonym json = "(string \<times> json_value) list"

record http_request =
  req_url :: string
  req_headers :: "(string \<times> string) list"
  req_body :: json

text \<open>
  The world outside the device. What the device does to it is one log of events in
  the order in which they happen: a request posted, or a call of \<^verbatim>\<open>delay\<close> with its
  argument in milliseconds. \<open>responses k\<close> is the code that \<^verbatim>\<open>http.POST\<close> returns for
  the \<open>k\<close>-th request made since boot (an HTTP status, or a value \<open>\<le> 0\<close> for a
  connection error). \<open>requests\<close> and \<open>delays\<close> read the requests and the delays off
  the log.
\<close>

datatype event = Post http_request | Delay nat

record world =
  responses :: "nat \<Rightarrow> int"
  events :: "event list"

fun posts_of :: "event list \<Rightarrow> http_request list" where
  "posts_of [] = []"
| "posts_of (Post r # es) = r # posts_of es"
| "posts_of (Delay ms # es) = posts_of es"

fun delays_of :: "event list \<Rightarrow> nat list" where
  "delays_of [] = []"
| "delays_of (Post r # es) = delays_of es"
| "delays_of (Delay ms # es) = ms # delays_of es"

definition requests :: "world \<Rightarrow> http_request list" where
  "requests w = posts_of (events w)"

definition delays :: "world \<Rightarrow> nat list" where
  "delays w = delays_of (events w)"

definition http_POST :: "http_request \<Rightarrow> world \<Rightarrow> int \<times> world" where
  "http_POST r w = (responses w (length (requests w)), w\<lparr>events := events w @ [Post r]\<rparr>)"

definition delay :: "nat \<Rightarrow> world \<Rightarrow> world" where
  "delay ms w = w\<lparr>events := events w @ [Delay ms]\<rparr>"

record DataManager =
  backendUrl :: string
  dataBuffer :: "PowerData list"

definition DataManager_init :: DataManager where
  "DataManager_init = \<lparr>backendUrl = DEFAULT_BACKEND_URL, dataBuffer = []\<rparr>"

subsection \<open>Sending one reading\<close>

definition convertDataToJson :: "PowerData \<Rightarrow> json" where
  "convertDataToJson d =
     [(''timestamp'', JInt (timestamp d)),
      (''current_amps'', JFloat (current d)),
      (''voltage_volts'', JFloat (voltage d)),
      (''power_watts'', JFloat (power_watts d)),
      (''energy_kwh'', JFloat (energy d)),
      (''device_id'', JString DEVICE_NAME)]"

text \<open>
  One iteration of the \<^verbatim>\<open>while\<close> loop of \<open>sendJsonToBackend\<close>: the request, the
  classification of the response code, and the back-off before the next attempt.
\<close>

definition post_request :: "string \<Rightarrow> json \<Rightarrow> http_request" where
  "post_request url payload =
     \<lparr>req_url = url, req_headers = [(''Content-Type'', ''application/json'')],
      req_body = payload\<rparr>"

definition sendJson_step :: "string \<Rightarrow> json \<Rightarrow> bool \<times> nat \<times> world \<Rightarrow> bool \<times> nat \<times> world" where
  "sendJson_step url payload st =
     (case st of (success, retryCount, w) \<Rightarrow>
        (case http_POST (post_request url payload) w of (httpResponseCode, w1) \<Rightarrow>
           let success1 =
                 (if httpResponseCode > 0
                  then (if httpResponseCode = HTTP_CODE_OK then True else success)
                  else success)
           in if \<not> success1
              then (let retryCount1 = retryCount + 1
                    in if retryCount1 < MAX_RETRY_ATTEMPTS
                       then (success1, retryCount1, delay (500 * retryCount1) w1)
                       else (success1, retryCount1, w1))
              else (success1, retryCount, w1)))"

function sendJson_loop :: "string \<Rightarrow> json \<Rightarrow> bool \<times> nat \<times> world \<Rightarrow> bool \<times> world" where
  "sendJson_loop url payload (success, retryCount, w) =
     (if \<not> success \<and> retryCount < MAX_RETRY_ATTEMPTS
      then sendJson_loop url payload (sendJson_step url payload (success, retryCount, w))
      else (success, w))"
  by pat_completeness auto
termination
  by (relation "measure (\<lambda>(url, payload, success, retryCount, w).
                   (if success then 0 else 1) + (MAX_RETRY_ATTEMPTS - retryCount))")
     (auto simp: sendJson_step_def Let_def split: prod.splits if_splits)

definition sendJsonToBackend :: "json \<Rightarrow> DataManager \<Rightarrow> world \<Rightarrow> bool \<times> world" where
  "sendJsonToBackend jsonPayload dm w = sendJson_loop (backendUrl dm) jsonPayload (False, 0, w)"

definition sendData :: "PowerData \<Rightarrow> DataManager \<Rightarrow> world \<Rightarrow> bool \<times> world" where
  "sendData d dm w = sendJsonToBackend (convertDataToJson d) dm w"

subsection \<open>The delivery buffer\<close>

definition bufferData :: "PowerData \<Rightarrow> DataManager \<Rightarrow> DataManager" where
  "bufferData d dm =
     (if length (dataBuffer dm) < DATA_BUFFER_SIZE
      then dm\<lparr>dataBuffer := dataBuffer dm @ [d]\<rparr>
      else dm\<lparr>dataBuffer := tl (dataBuffer dm) @ [d]\<rparr>)"

definition hasBufferedData :: "DataManager \<Rightarrow> bool" where
  "hasBufferedData dm = (dataBuffer dm \<noteq> [])"

text \<open>The range-based \<^verbatim>\<open>for\<close> loop of \<open>sendBufferedData\<close>, with its accumulator.\<close>

fun sendBuffered_loop ::
  "DataManager \<Rightarrow> PowerData list \<Rightarrow> PowerData list \<Rightarrow> world \<Rightarrow> PowerData list \<times> world" where
  "sendBuffered_loop dm [] failedTransmissions w = (failedTransmissions, w)"
| "sendBuffered_loop dm (d # ds) failedTransmissions w =
     (case sendData d dm w of (ok, w1) \<Rightarrow>
        sendBuffered_loop dm ds
          (if \<not> ok then failedTransmissions @ [d] else failedTransmissions)
          (delay 100 w1))"

definition sendBufferedData :: "DataManager \<Rightarrow> world \<Rightarrow> bool \<times> DataManager \<times> world" where
  "sendBufferedData dm w =
     (if dataBuffer dm = [] then (True, dm, w)
      else (let initialSize = length (dataBuffer dm)
            in case sendBuffered_loop dm (dataBuffer dm) [] w of
                 (failedTransmissions, w1) \<Rightarrow>
                   (length failedTransmissions < initialSize,
                    dm\<lparr>dataBuffer := failedTransmissions\<rparr>, w1)))"

section \<open>PowerMonitor (PowerMonitor.h, PowerMonitor.cpp)\<close>

definition ADC_COUNTS :: real where "ADC_COUNTS = 4096"
definition VREF :: real where "VREF = 3.3"
definition SAMPLES_PER_CYCLE :: nat where "SAMPLES_PER_CYCLE = 100"

record PowerMonitor =
  currentRMS :: real
  mainVoltage :: real
  powerWatts :: real
  energyKwh :: real
  lastEnergyCalcTime :: ulong
  calibrationFactor :: real

definition PowerMonitor_init :: PowerMonitor where
  "PowerMonitor_init =
     \<lparr>currentRMS = 0, mainVoltage = MAINS_VOLTAGE, powerWatts = 0, energyKwh = 0,
      lastEnergyCalcTime = 0, calibrationFactor = 1\<rparr>"

text \<open>\<open>begin\<close> stores the reading of \<^verbatim>\<open>millis()\<close>, which is an argument of the model.\<close>

definition PowerMonitor_begin :: "ulong \<Rightarrow> PowerMonitor \<Rightarrow> PowerMonitor" where
  "PowerMonitor_begin now s = s\<lparr>lastEnergyCalcTime := now\<rparr>"

definition getCurrentAmps :: "PowerMonitor \<Rightarrow> real" where "getCurrentAmps s = currentRMS s"
definition getVoltage :: "PowerMonitor \<Rightarrow> real" where "getVoltage s = mainVoltage s"
definition getPowerWatts :: "PowerMonitor \<Rightarrow> real" where "getPowerWatts s = powerWatts s"
definition getEnergyKwh :: "PowerMonitor \<Rightarrow> real" where "getEnergyKwh s = energyKwh s"

definition setVoltage :: "real \<Rightarrow> PowerMonitor \<Rightarrow> PowerMonitor" where
  "setVoltage v s = (if v > 0 then s\<lparr>mainVoltage := v\<rparr> else s)"

text \<open>
  The sampling loop of \<open>readCurrentSensor\<close>; \<open>analogRead i\<close> is the value that the
  \<open>i\<close>-th call of \<^verbatim>\<open>analogRead\<close> returns in this cycle.
\<close>

function readCurrentSensor_loop :: "(nat \<Rightarrow> int) \<Rightarrow> nat \<Rightarrow> nat \<Rightarrow> real \<Rightarrow> real" where
  "readCurrentSensor_loop analogRead sampleCount i sumSquared =
     (if i < sampleCount
      then (let adcValue = analogRead i;
                voltage = (real_of_int adcValue / ADC_COUNTS) * VREF;
                voltageOffset = voltage - (VREF / 2)
            in readCurrentSensor_loop analogRead sampleCount (i + 1)
                 (sumSquared + voltageOffset * voltageOffset))
      else sumSquared)"
  by pat_completeness auto
termination
  by (relation "measure (\<lambda>(analogRead, sampleCount, i, sumSquared). sampleCount - i)") auto

definition readCurrentSensor :: "(nat \<Rightarrow> int) \<Rightarrow> real" where
  "readCurrentSensor analogRead =
     (let sampleCount = SAMPLES_PER_CYCLE
      in readCurrentSensor_loop analogRead sampleCount 0 0 / real sampleCount)"

text \<open>
  \<^verbatim>\<open>sqrt\<close> of a negative number is NaN in C, and NaN passes the noise-floor test
  unchanged (the comparison is false); this is the result \<open>None\<close>. The real square
  root of HOL is not used there.
\<close>

definition calculateRMSCurrent :: "real \<Rightarrow> PowerMonitor \<Rightarrow> real option" where
  "calculateRMSCurrent meanSquared s =
     (if meanSquared < 0 then None
      else (let rmsVoltage = sqrt meanSquared;
                rmsCurrent = (rmsVoltage / CT_BURDEN_RESISTOR) * CT_TURNS_RATIO;
                rmsCurrent = rmsCurrent * calibrationFactor s
            in Some (if rmsCurrent < 0.05 then 0 else rmsCurrent)))"

definition calculatePower :: "PowerMonitor \<Rightarrow> PowerMonitor" where
  "calculatePower s = s\<lparr>powerWatts := currentRMS s * mainVoltage s\<rparr>"

text \<open>
  \<open>updateEnergy\<close>; \<open>currentTime\<close> is the reading of \<^verbatim>\<open>millis()\<close>. The difference
  of the two unsigned readings wraps around modulo \<open>2^32\<close>.
\<close>

definition updateEnergy :: "ulong \<Rightarrow> PowerMonitor \<Rightarrow> PowerMonitor" where
  "updateEnergy currentTime s =
     (let timeDelta = currentTime - lastEnergyCalcTime s
      in if timeDelta > 0
         then (let hoursElapsed = real (unat timeDelta) / 3600000;
                   energyIncrement = powerWatts s * hoursElapsed / 1000
               in s\<lparr>energyKwh := energyKwh s + energyIncrement,
                    lastEnergyCalcTime := currentTime\<rparr>)
         else s)"

definition PowerMonitor_update :: "(nat \<Rightarrow> int) \<Rightarrow> ulong \<Rightarrow> PowerMonitor \<Rightarrow> PowerMonitor option" where
  "PowerMonitor_update analogRead now s =
     (let rawCurrent = readCurrentSensor analogRead
      in case calculateRMSCurrent rawCurrent s of
           None \<Rightarrow> None
         | Some c \<Rightarrow> Some (updateEnergy now (calculatePower (s\<lparr>currentRMS := c\<rparr>))))"

text \<open>
  A sequence of calls of \<open>updateEnergy\<close>: each call is made with the power that
  \<open>calculatePower\<close> has stored before it and with the clock reading of that call; the
  result lists the state after each call.
\<close>

fun updateEnergy_calls :: "(real \<times> ulong) list \<Rightarrow> PowerMonitor \<Rightarrow> PowerMonitor list" where
  "updateEnergy_calls [] s = []"
| "updateEnergy_calls ((p, now) # cs) s =
     (let s1 = updateEnergy now (s\<lparr>powerWatts := p\<rparr>) in s1 # updateEnergy_calls cs s1)"

section \<open>AiProcessor (AiProcessor.h, AiProcessor.cpp)\<close>

record AiProcessor =
  dataHistory :: "PowerData list"
  powerPrediction :: real

definition AiProcessor_init :: AiProcessor where
  "AiProcessor_init = \<lparr>dataHistory = [], powerPrediction = 0\<rparr>"

definition AiProcessor_begin :: "AiProcessor \<Rightarrow> AiProcessor" where
  "AiProcessor_begin s = s\<lparr>dataHistory := []\<rparr>"




text \<open>
  \<open>analyzeTrend\<close> returns nothing and prints its classification; the model returns
  what is printed. The percentage is the quotient of two floats: with a divisor \<open>0\<close>
  it is infinite, or NaN for \<open>0/0\<close>, and NaN fails both comparisons of the
  classification.
\<close>

datatype percentage = Pct real | PctInf | PctNaN

datatype trend_report = InsufficientData | Stable | Increasing percentage | Decreasing percentage

function sum_power_loop :: "PowerData list \<Rightarrow> nat \<Rightarrow> nat \<Rightarrow> real \<Rightarrow> real" where
  "sum_power_loop h i n acc =
     (if i < n then sum_power_loop h (i + 1) n (acc + power_watts (h ! i)) else acc)"
  by pat_completeness auto
termination
  by (relation "measure (\<lambda>(h, i, n, acc). n - i)") auto

definition analyzeTrend :: "AiProcessor \<Rightarrow> trend_report" where
  "analyzeTrend s =
     (if length (dataHistory s) < TREND_WINDOW_SIZE then InsufficientData
      else (let firstAvg = sum_power_loop (dataHistory s) 0 (TREND_WINDOW_SIZE div 2) 0;
                firstAvg = firstAvg / real (TREND_WINDOW_SIZE div 2);
                lastAvg = sum_power_loop (dataHistory s)
                            (TREND_WINDOW_SIZE div 2) TREND_WINDOW_SIZE 0;
                lastAvg = lastAvg / real (TREND_WINDOW_SIZE div 2);
                change = lastAvg - firstAvg
            in if firstAvg = 0
               then (if change > 0 then Increasing PctInf
                     else if change < 0 then Decreasing PctInf
                     else Decreasing PctNaN)
               else (let percentChange = (change / firstAvg) * 100
                     in if \<bar>percentChange\<bar> < 5 then Stable
                        else if percentChange > 0 then Increasing (Pct percentChange)
                        else Decreasing (Pct (- percentChange)))))"

definition getPredictedPower :: "AiProcessor \<Rightarrow> real" where
  "getPredictedPower s = powerPrediction s"

text \<open>The accumulation loop of \<open>updatePrediction\<close>: \<open>(sumX, sumY, sumXY, sumX2)\<close>.\<close>

function regression_loop ::
  "PowerData list \<Rightarrow> nat \<Rightarrow> nat \<Rightarrow> real \<times> real \<times> real \<times> real \<Rightarrow> real \<times> real \<times> real \<times> real" where
  "regression_loop h i n (sumX, sumY, sumXY, sumX2) =
     (if i < n
      then (let x = real i; y = power_watts (h ! i)
            in regression_loop h (i + 1) n (sumX + x, sumY + y, sumXY + x * y, sumX2 + x * x))
      else (sumX, sumY, sumXY, sumX2))"
  by pat_completeness auto
termination
  by (relation "measure (\<lambda>(h, i, n, acc). n - i)") auto

definition updatePrediction :: "AiProcessor \<Rightarrow> AiProcessor" where
  "updatePrediction s =
     (if length (dataHistory s) < 2
      then (if dataHistory s \<noteq> []
            then s\<lparr>powerPrediction := power_watts (last (dataHistory s))\<rparr>
            else s)
      else (let n = length (dataHistory s)
            in case regression_loop (dataHistory s) 0 n (0, 0, 0, 0) of
                 (sumX, sumY, sumXY, sumX2) \<Rightarrow>
                   (let slope = (real n * sumXY - sumX * sumY) / (real n * sumX2 - sumX * sumX);
                        intercept = (sumY - slope * sumX) / real n;
                        prediction = intercept + slope * real n
                    in s\<lparr>powerPrediction := (if prediction < 0 then 0 else prediction)\<rparr>)))"

definition AiProcessor_update :: "PowerData \<Rightarrow> AiProcessor \<Rightarrow> AiProcessor" where
  "AiProcessor_update d s =
     (let s1 = s\<lparr>dataHistory := dataHistory s @ [d]\<rparr>;
          s2 = (if length (dataHistory s1) > TREND_WINDOW_SIZE
                then s1\<lparr>dataHistory := tl (dataHistory s1)\<rparr> else s1)
      in updatePrediction s2)"

text \<open>
  The delivery section of \<^verbatim>\<open>loop()\<close> in the main program: with a connection, the
  buffer is drained first and the new reading is sent, and buffered if that fails;
  without one the reading is buffered.
\<close>

definition loop_deliver :: "bool \<Rightarrow> PowerData \<Rightarrow> DataManager \<times> world \<Rightarrow> DataManager \<times> world" where
  "loop_deliver isConnected d st =
     (case st of (dm, w) \<Rightarrow>
        if isConnected
        then (case (if hasBufferedData dm then snd (sendBufferedData dm w) else (dm, w)) of
                (dm1, w1) \<Rightarrow>
                  (case sendData d dm1 w1 of
                     (success, w2) \<Rightarrow> if \<not> success then (bufferData d dm1, w2) else (dm1, w2)))
        else (bufferData d dm, w))"

section \<open>Reference notions\<close>

subsection \<open>Sequences of buffer operations and the outcome of each send\<close>

datatype dm_op = BufferData PowerData | SendBufferedData

fun run_op :: "dm_op \<Rightarrow> DataManager \<times> world \<Rightarrow> DataManager \<times> world" where
  "run_op (BufferData d) (dm, w) = (bufferData d dm, w)"
| "run_op SendBufferedData (dm, w) = snd (sendBufferedData dm w)"

definition run_ops :: "dm_op list \<Rightarrow> DataManager \<times> world \<Rightarrow> DataManager \<times> world" where
  "run_ops ops st = fold run_op ops st"

text \<open>
  The sends of a drain, reading by reading in buffer order: whether \<open>sendData\<close>
  succeeded for the reading, and how many requests it made. Each send starts in the
  world that the previous one and the pause after it have left.
\<close>

fun send_outcomes :: "DataManager \<Rightarrow> PowerData list \<Rightarrow> world \<Rightarrow> (bool \<times> nat) list" where
  "send_outcomes dm [] w = []"
| "send_outcomes dm (d # ds) w =
     (case sendData d dm w of (ok, w1) \<Rightarrow>
        (ok, length (requests w1) - length (requests w))
          # send_outcomes dm ds (delay 100 w1))"

definition retained :: "PowerData list \<Rightarrow> (bool \<times> nat) list \<Rightarrow> PowerData list" where
  "retained ds outs = map fst (filter (\<lambda>(d, ok, n). \<not> ok) (zip ds outs))"

definition posted :: "string \<Rightarrow> PowerData list \<Rightarrow> (bool \<times> nat) list \<Rightarrow> http_request list" where
  "posted url ds outs =
     concat (map (\<lambda>(d, ok, n). replicate n (post_request url (convertDataToJson d)))
               (zip ds outs))"

text \<open>
  A transport scripted to produce a given outcome for each send of a drain: one
  response 200 for a send that is to succeed, three connection errors for one that is
  to fail.
\<close>

definition codes_for :: "bool list \<Rightarrow> int list" where
  "codes_for bs = concat (map (\<lambda>b. if b then [HTTP_CODE_OK] else [-1, -1, -1]) bs)"

definition scripted_world :: "bool list \<Rightarrow> world" where
  "scripted_world bs =
     \<lparr>responses = (\<lambda>k. if k < length (codes_for bs) then codes_for bs ! k else 0),
      events = []\<rparr>"

subsection \<open>Statistics\<close>

definition sample_mean :: "real list \<Rightarrow> real" where
  "sample_mean xs = sum_list xs / real (length xs)"





definition first_half :: "'a list \<Rightarrow> 'a list" where
  "first_half xs = take (length xs div 2) xs"

definition second_half :: "'a list \<Rightarrow> 'a list" where
  "second_half xs = drop (length xs div 2) xs"

definition percent_change :: "real list \<Rightarrow> real" where
  "percent_change ps =
     (sample_mean (second_half ps) - sample_mean (first_half ps))
       / sample_mean (first_half ps) * 100"

text \<open>
  The least-squares line through the points \<open>(i, ys ! i)\<close>, in the textbook form:
  the slope is the covariance of index and value over the variance of the index, and
  the line passes through the point of the two means.
\<close>

definition ols_slope :: "real list \<Rightarrow> real" where
  "ols_slope ys =
     (let n = length ys;
          xbar = sample_mean (map real [0..<n]);
          ybar = sample_mean ys
      in (\<Sum>i\<leftarrow>[0..<n]. (real i - xbar) * (ys ! i - ybar))
           / (\<Sum>i\<leftarrow>[0..<n]. (real i - xbar)\<^sup>2))"

definition ols_intercept :: "real list \<Rightarrow> real" where
  "ols_intercept ys = sample_mean ys - ols_slope ys * sample_mean (map real [0..<length ys])"

definition ols_line :: "real list \<Rightarrow> real \<Rightarrow> real" where
  "ols_line ys x = ols_intercept ys + ols_slope ys * x"

definition squared_error :: "real list \<Rightarrow> real \<Rightarrow> real \<Rightarrow> real" where
  "squared_error ys a b = (\<Sum>i\<leftarrow>[0..<length ys]. (ys ! i - (a + b * real i))\<^sup>2)"

section \<open>Concrete inputs\<close>

definition reading0 :: PowerData where
  "reading0 = \<lparr>timestamp = 7, current = 6, voltage = 230, power_watts = 1380, energy = 1/2,
                anomaly = False\<rparr>"

definition reading1 :: PowerData where
  "reading1 = \<lparr>timestamp = 12, current = 0, voltage = 230, power_watts = 0, energy = 1/2,
                anomaly = True\<rparr>"

text \<open>Two failures, a server error and a connection error, then success.\<close>

definition flaky_world :: world where
  "flaky_world = \<lparr>responses = (\<lambda>k. if k = 0 then 503 else if k = 1 then -1 else 200),
                   events = []\<rparr>"

text \<open>No connection for the first three requests.\<close>

definition outage_world :: world where
  "outage_world = \<lparr>responses = (\<lambda>k. if k < 3 then -1 else 200), events = []\<rparr>"

definition two_buffered :: DataManager where
  "two_buffered = \<lparr>backendUrl = DEFAULT_BACKEND_URL, dataBuffer = [reading0, reading1]\<rparr>"

definition full_buffer :: DataManager where
  "full_buffer = \<lparr>backendUrl = DEFAULT_BACKEND_URL, dataBuffer = replicate 100 reading0\<rparr>"

text \<open>A monitor drawing 1 kW whose stored time is ahead of the clock reading 500.\<close>

definition clock_ahead :: PowerMonitor where
  "clock_ahead = PowerMonitor_init\<lparr>powerWatts := 1000, lastEnergyCalcTime := 1000\<rparr>"

definition mk_reading :: "real \<Rightarrow> PowerData" where
  "mk_reading p =
     \<lparr>timestamp = 0, current = p / 230, voltage = 230, power_watts = p, energy = 0,
      anomaly = False\<rparr>"

definition step_history :: "PowerData list" where
  "step_history = map mk_reading [100, 100, 100, 100, 100, 200, 200, 200, 200, 200]"

definition falling_history :: "PowerData list" where
  "falling_history = map mk_reading [9, 8, 7, 6, 5, 4, 3, 2, 1, 0]"

definition short_history :: "PowerData list" where
  "short_history = map mk_reading [1, 2, 3]"



text \<open>An \<open>AiProcessor\<close> holding a given history.\<close>

definition with_history :: "PowerData list \<Rightarrow> AiProcessor" where
  "with_history h = AiProcessor_init\<lparr>dataHistory := h\<rparr>"

section \<open>Properties of the DataManager\<close>

subsection \<open>One send: at most three attempts, with growing delay\<close>

lemma posts_of_append: "posts_of (es @ fs) = posts_of es @ posts_of fs"
  by (induction es rule: posts_of.induct) simp_all

lemma delays_of_append: "delays_of (es @ fs) = delays_of es @ delays_of fs"
  by (induction es rule: delays_of.induct) simp_all

lemma requests_events:
  "requests (w\<lparr>events := events w @ es\<rparr>) = requests w @ posts_of es"
  by (simp add: requests_def posts_of_append)

lemma delays_events:
  "delays (w\<lparr>events := events w @ es\<rparr>) = delays w @ delays_of es"
  by (simp add: delays_def delays_of_append)

lemma requests_http_POST: "requests (snd (http_POST r w)) = requests w @ [r]"
  by (simp add: http_POST_def requests_events)

lemma requests_delay: "requests (delay ms w) = requests w"
  by (simp add: delay_def requests_events)

lemma responses_delay: "responses (delay ms w) = responses w"
  by (simp add: delay_def)

text \<open>
  The loop of \<open>sendJsonToBackend\<close> unrolled: \<open>k\<close> requests have been made before
  the call, so the attempts receive the responses \<open>k\<close>, \<open>k + 1\<close> and \<open>k + 2\<close>.
\<close>

lemma sendJsonToBackend_unfold:
  "sendJsonToBackend p dm w =
     (let k = length (requests w);
          r = post_request (backendUrl dm) p
      in if responses w k = HTTP_CODE_OK
         then (True, w\<lparr>events := events w @ [Post r]\<rparr>)
         else if responses w (k + 1) = HTTP_CODE_OK
         then (True, w\<lparr>events := events w @ [Post r, Delay 500, Post r]\<rparr>)
         else if responses w (k + 2) = HTTP_CODE_OK
         then (True, w\<lparr>events := events w @ [Post r, Delay 500, Post r, Delay 1000, Post r]\<rparr>)
         else (False, w\<lparr>events := events w @ [Post r, Delay 500, Post r, Delay 1000, Post r]\<rparr>))"
  by (simp add: sendJsonToBackend_def sendJson_step_def http_POST_def delay_def
      requests_def posts_of_append MAX_RETRY_ATTEMPTS_def HTTP_CODE_OK_def Let_def)

text \<open>
  Claim C5. A single send makes \<open>n\<close> requests with \<open>1 \<le> n \<le> 3\<close>, all of them the
  POST of the payload to the backend URL. The events it adds to the log are, in this
  order: for each \<open>k\<close> from 1 to \<open>n - 1\<close> the \<open>k\<close>-th request followed by a delay of
  \<open>500 * k\<close> ms, and then the \<open>n\<close>-th request; so each delay lies between two
  consecutive attempts, and none follows the last. The send returns true exactly when
  one of its attempts received the code 200; an attempt that received 200 is the last
  one; and a send that returns false has used all three attempts, whatever the codes
  were (other HTTP status, or a connection error \<open>\<le> 0\<close>).
\<close>

theorem sendJsonToBackend_retry_policy:
  assumes "sendJsonToBackend p dm w = (ok, w')"
  shows "(let n = length (requests w') - length (requests w);
              r = (\<lambda>i. responses w (length (requests w) + i));
              req = post_request (backendUrl dm) p
          in 1 \<le> n \<and> n \<le> MAX_RETRY_ATTEMPTS \<and> MAX_RETRY_ATTEMPTS = 3
           \<and> events w' = events w @ concat (map (\<lambda>k. [Post req, Delay (500 * k)]) [1..<n])
                                   @ [Post req]
           \<and> requests w' = requests w @ replicate n req
           \<and> delays w' = delays w @ map (\<lambda>k. 500 * k) [1..<n]
           \<and> responses w' = responses w
           \<and> ok = (\<exists>i<n. r i = HTTP_CODE_OK)
           \<and> (\<forall>i<n. r i = HTTP_CODE_OK \<longrightarrow> Suc i = n)
           \<and> (ok \<or> n = MAX_RETRY_ATTEMPTS)
           \<and> HTTP_CODE_OK = 200)"
proof -
  let ?k = "length (requests w)"
  consider (first) "responses w ?k = HTTP_CODE_OK"
    | (second) "responses w ?k \<noteq> HTTP_CODE_OK" "responses w (?k + 1) = HTTP_CODE_OK"
    | (third) "responses w ?k \<noteq> HTTP_CODE_OK" "responses w (?k + 1) \<noteq> HTTP_CODE_OK"
    by blast
  then show ?thesis
  proof cases
    case first
    with assms show ?thesis
      by (auto simp: sendJsonToBackend_unfold Let_def MAX_RETRY_ATTEMPTS_def HTTP_CODE_OK_def
          requests_events delays_events)
  next
    case second
    with assms show ?thesis
      by (auto simp: sendJsonToBackend_unfold Let_def MAX_RETRY_ATTEMPTS_def HTTP_CODE_OK_def
          requests_events delays_events numeral_2_eq_2 numeral_3_eq_3 less_Suc_eq)
  next
    case third
    with assms show ?thesis
      by (auto simp: sendJsonToBackend_unfold Let_def MAX_RETRY_ATTEMPTS_def HTTP_CODE_OK_def
          requests_events delays_events numeral_2_eq_2 numeral_3_eq_3 less_Suc_eq
          split: if_splits)
  qed
qed

theorem sendJsonToBackend_retry_policy_witness:
  "sendJsonToBackend (convertDataToJson reading0) DataManager_init flaky_world
     = (True, flaky_world\<lparr>events :=
                 [Post (post_request DEFAULT_BACKEND_URL (convertDataToJson reading0)),
                  Delay 500,
                  Post (post_request DEFAULT_BACKEND_URL (convertDataToJson reading0)),
                  Delay 1000,
                  Post (post_request DEFAULT_BACKEND_URL (convertDataToJson reading0))]\<rparr>)
   \<and> MAX_RETRY_ATTEMPTS = 3"
proof -
  have run: "sendJsonToBackend (convertDataToJson reading0) DataManager_init flaky_world
     = (True, flaky_world\<lparr>events :=
                 [Post (post_request DEFAULT_BACKEND_URL (convertDataToJson reading0)),
                  Delay 500,
                  Post (post_request DEFAULT_BACKEND_URL (convertDataToJson reading0)),
                  Delay 1000,
                  Post (post_request DEFAULT_BACKEND_URL (convertDataToJson reading0))]\<rparr>)"
    by (simp add: sendJsonToBackend_unfold HTTP_CODE_OK_def Let_def flaky_world_def
        DataManager_init_def requests_def)
  from sendJsonToBackend_retry_policy [OF run] show ?thesis
    using run by (simp add: Let_def flaky_world_def)
qed

subsection \<open>Draining the buffer\<close>

lemma sendData_attempts:
  assumes "sendData d dm w = (ok, w1)"
  shows "requests w1 = requests w @ replicate (length (requests w1) - length (requests w))
                         (post_request (backendUrl dm) (convertDataToJson d))"
    and "1 \<le> length (requests w1) - length (requests w)"
    and "length (requests w1) - length (requests w) \<le> MAX_RETRY_ATTEMPTS"
  using assms
  by (auto simp: sendData_def sendJsonToBackend_unfold Let_def MAX_RETRY_ATTEMPTS_def
      requests_events numeral_2_eq_2 numeral_3_eq_3 split: if_splits)

lemma length_send_outcomes: "length (send_outcomes dm ds w) = length ds"
  by (induction ds arbitrary: w) (auto split: prod.splits)

lemma send_outcomes_counts:
  "list_all (\<lambda>(ok, n). 1 \<le> n \<and> n \<le> MAX_RETRY_ATTEMPTS) (send_outcomes dm ds w)"
proof (induction ds arbitrary: w)
  case Nil
  show ?case by simp
next
  case (Cons d ds)
  obtain ok w1 where s: "sendData d dm w = (ok, w1)" by (cases "sendData d dm w")
  from sendData_attempts(2,3) [OF s] Cons [of "delay 100 w1"] s show ?case by simp
qed

lemma sendBuffered_loop_fst:
  "fst (sendBuffered_loop dm ds failed w) = failed @ retained ds (send_outcomes dm ds w)"
  by (induction ds arbitrary: failed w) (auto simp: retained_def split: prod.splits)

lemma sendBuffered_loop_requests:
  "requests (snd (sendBuffered_loop dm ds failed w))
     = requests w @ posted (backendUrl dm) ds (send_outcomes dm ds w)"
proof (induction ds arbitrary: failed w)
  case Nil
  show ?case by (simp add: posted_def)
next
  case (Cons d ds)
  obtain ok w1 where s: "sendData d dm w = (ok, w1)" by (cases "sendData d dm w")
  have "requests (delay 100 w1) = requests w1" by (rule requests_delay)
  with Cons [of _ "delay 100 w1"] sendData_attempts(1) [OF s] s show ?case
    by (simp add: posted_def)
qed

lemma subseq_retained: "subseq (retained ds outs) ds"
proof -
  have "subseq (map fst (filter P (zip ds outs))) (map fst (zip ds outs))" for P
    by (intro subseq_map subseq_filter_left)
  moreover have "subseq (map fst (zip ds outs)) ds"
    by (induction ds arbitrary: outs) (auto simp: zip_Cons1 split: list.splits)
  ultimately show ?thesis unfolding retained_def by (rule subseq_order.trans)
qed

lemma length_retained: "length (retained ds outs) \<le> length ds"
  using subseq_retained [of ds outs] by (rule list_emb_length)

lemma sendBufferedData_unfold:
  "sendBufferedData dm w =
     (let failed = retained (dataBuffer dm) (send_outcomes dm (dataBuffer dm) w)
      in (dataBuffer dm = [] \<or> length failed < length (dataBuffer dm),
          dm\<lparr>dataBuffer := failed\<rparr>,
          snd (sendBuffered_loop dm (dataBuffer dm) [] w)))"
proof (cases "dataBuffer dm = []")
  case True
  then show ?thesis by (simp add: sendBufferedData_def retained_def)
next
  case False
  obtain failed w1 where l: "sendBuffered_loop dm (dataBuffer dm) [] w = (failed, w1)"
    by (cases "sendBuffered_loop dm (dataBuffer dm) [] w")
  from sendBuffered_loop_fst [of dm "dataBuffer dm" "[]" w] l
  have "failed = retained (dataBuffer dm) (send_outcomes dm (dataBuffer dm) w)" by simp
  with False l show ?thesis by (simp add: sendBufferedData_def Let_def)
qed

text \<open>Every assignment of outcomes to the buffered readings is produced by some transport.\<close>

lemma send_outcomes_scripted:
  assumes "length ds = length bs"
    and "\<forall>j < length (codes_for bs). responses w (length (requests w) + j) = codes_for bs ! j"
  shows "map fst (send_outcomes dm ds w) = bs"
  using assms
proof (induction bs arbitrary: ds w)
  case Nil
  then show ?case by simp
next
  case (Cons b bs)
  from Cons.prems(1) obtain d ds' where ds: "ds = d # ds'" "length ds' = length bs"
    by (cases ds) auto
  let ?k = "length (requests w)"
  show ?case
  proof (cases b)
    case True
    then have c: "codes_for (b # bs) = HTTP_CODE_OK # codes_for bs"
      by (simp add: codes_for_def)
    from Cons.prems(2) [rule_format, of 0] c have r0: "responses w ?k = HTTP_CODE_OK" by simp
    obtain ok w1 where s: "sendData d dm w = (ok, w1)" by (cases "sendData d dm w")
    with r0 have ok: "ok" and w1: "w1 = w\<lparr>events := events w
        @ [Post (post_request (backendUrl dm) (convertDataToJson d))]\<rparr>"
      by (auto simp: sendData_def sendJsonToBackend_unfold Let_def)
    have "\<forall>j < length (codes_for bs).
            responses (delay 100 w1) (length (requests (delay 100 w1)) + j) = codes_for bs ! j"
    proof (intro allI impI)
      fix j assume "j < length (codes_for bs)"
      with Cons.prems(2) [rule_format, of "Suc j"] c
      show "responses (delay 100 w1) (length (requests (delay 100 w1)) + j) = codes_for bs ! j"
        by (simp add: w1 requests_delay responses_delay requests_events)
    qed
    from Cons.IH [OF ds(2) this] s ok True show ?thesis by (simp add: ds)
  next
    case False
    then have c: "codes_for (b # bs) = -1 # -1 # -1 # codes_for bs"
      by (simp add: codes_for_def)
    from Cons.prems(2) [rule_format, of 0] Cons.prems(2) [rule_format, of 1]
      Cons.prems(2) [rule_format, of 2] c
    have r: "responses w ?k = -1" "responses w (?k + 1) = -1" "responses w (?k + 2) = -1"
      by simp_all
    obtain ok w1 where s: "sendData d dm w = (ok, w1)" by (cases "sendData d dm w")
    with r have ok: "\<not> ok" and w1: "w1 = w\<lparr>events := events w
        @ [Post (post_request (backendUrl dm) (convertDataToJson d)), Delay 500,
           Post (post_request (backendUrl dm) (convertDataToJson d)), Delay 1000,
           Post (post_request (backendUrl dm) (convertDataToJson d))]\<rparr>"
      by (auto simp: sendData_def sendJsonToBackend_unfold Let_def HTTP_CODE_OK_def)
    have "\<forall>j < length (codes_for bs).
            responses (delay 100 w1) (length (requests (delay 100 w1)) + j) = codes_for bs ! j"
    proof (intro allI impI)
      fix j assume "j < length (codes_for bs)"
      with Cons.prems(2) [rule_format, of "Suc (Suc (Suc j))"] c
      show "responses (delay 100 w1) (length (requests (delay 100 w1)) + j) = codes_for bs ! j"
        by (simp add: w1 requests_delay responses_delay requests_events)
    qed
    from Cons.IH [OF ds(2) this] s ok False show ?thesis by (simp add: ds)
  qed
qed

lemma retained_outcomes:
  "length outs = length ds \<Longrightarrow>
   retained ds outs = map fst (filter (\<lambda>(d, ok). \<not> ok) (zip ds (map fst outs)))"
  unfolding retained_def
  by (induction ds outs rule: list_induct2') auto

lemma sendBufferedData_any_outcome:
  assumes "length bs = length (dataBuffer dm)"
  shows "dataBuffer (fst (snd (sendBufferedData dm (scripted_world bs))))
           = map fst (filter (\<lambda>(d, ok). \<not> ok) (zip (dataBuffer dm) bs))"
proof -
  have "map fst (send_outcomes dm (dataBuffer dm) (scripted_world bs)) = bs"
    using assms
    by (intro send_outcomes_scripted) (simp_all add: scripted_world_def requests_def)
  then show ?thesis
    by (simp add: sendBufferedData_unfold Let_def retained_outcomes length_send_outcomes)
qed

text \<open>
  Claim C4. A drain sends every buffered reading once, in buffer order: the requests it
  adds to the log are those of the first reading (between one and three), then those of
  the second, and so on. Afterwards the buffer holds exactly the readings whose send
  failed, in their original order, so it is a subsequence of the old buffer. The result
  is true when the buffer was empty or has become shorter. Every assignment \<open>bs\<close> of
  an outcome to each buffered reading occurs (with the transport scripted for it), and
  leaves the readings that \<open>bs\<close> marks as failed.
\<close>

theorem sendBufferedData_retains_failed:
  assumes "sendBufferedData dm w = (ret, dm', w')"
  shows "(let outs = send_outcomes dm (dataBuffer dm) w
          in length outs = length (dataBuffer dm)
           \<and> list_all (\<lambda>(ok, n). 1 \<le> n \<and> n \<le> MAX_RETRY_ATTEMPTS) outs
           \<and> requests w' = requests w @ posted (backendUrl dm) (dataBuffer dm) outs
           \<and> dataBuffer dm' = retained (dataBuffer dm) outs
           \<and> subseq (dataBuffer dm') (dataBuffer dm)
           \<and> backendUrl dm' = backendUrl dm
           \<and> ret = (dataBuffer dm = [] \<or> length (dataBuffer dm') < length (dataBuffer dm)))
         \<and> (\<forall>bs. length bs = length (dataBuffer dm) \<longrightarrow>
                dataBuffer (fst (snd (sendBufferedData dm (scripted_world bs))))
                  = map fst (filter (\<lambda>(d, ok). \<not> ok) (zip (dataBuffer dm) bs)))"
proof -
  from assms have e: "dm' = dm\<lparr>dataBuffer := retained (dataBuffer dm)
                                  (send_outcomes dm (dataBuffer dm) w)\<rparr>"
    "w' = snd (sendBuffered_loop dm (dataBuffer dm) [] w)"
    "ret = (dataBuffer dm = [] \<or> length (retained (dataBuffer dm)
                (send_outcomes dm (dataBuffer dm) w)) < length (dataBuffer dm))"
    by (simp_all add: sendBufferedData_unfold Let_def)
  show ?thesis
    unfolding Let_def
    using e send_outcomes_counts [of dm "dataBuffer dm" w]
    by (simp add: length_send_outcomes subseq_retained sendBuffered_loop_requests
        sendBufferedData_any_outcome)
qed

theorem sendBufferedData_retains_failed_witness:
  "fst (sendBufferedData two_buffered outage_world) = True
   \<and> dataBuffer (fst (snd (sendBufferedData two_buffered outage_world))) = [reading0]
   \<and> send_outcomes two_buffered [reading0, reading1] outage_world = [(False, 3), (True, 1)]
   \<and> delays (snd (snd (sendBufferedData two_buffered outage_world))) = [500, 1000, 100, 100]"
proof -
  obtain ret dm' w' where run: "sendBufferedData two_buffered outage_world = (ret, dm', w')"
    by (cases "sendBufferedData two_buffered outage_world")
  have outs: "send_outcomes two_buffered [reading0, reading1] outage_world
                = [(False, 3), (True, 1)]"
    by (simp add: sendData_def sendJsonToBackend_unfold Let_def outage_world_def
        HTTP_CODE_OK_def delay_def requests_def)
  have d: "delays (snd (snd (sendBufferedData two_buffered outage_world)))
             = [500, 1000, 100, 100]"
    by (simp add: sendBufferedData_def two_buffered_def sendData_def sendJsonToBackend_unfold
        Let_def outage_world_def HTTP_CODE_OK_def delay_def requests_def delays_def)
  from sendBufferedData_retains_failed [OF run] outs d show ?thesis
    using run by (simp add: Let_def two_buffered_def retained_def)
qed

subsection \<open>The buffer never exceeds its capacity\<close>

lemma length_sendBufferedData:
  "length (dataBuffer (fst (snd (sendBufferedData dm w)))) \<le> length (dataBuffer dm)"
  by (simp add: sendBufferedData_unfold Let_def length_retained)

lemma length_bufferData:
  "length (dataBuffer dm) \<le> DATA_BUFFER_SIZE \<Longrightarrow>
   length (dataBuffer (bufferData d dm)) \<le> DATA_BUFFER_SIZE"
  by (auto simp: bufferData_def DATA_BUFFER_SIZE_def)

lemma run_op_bounded:
  assumes "length (dataBuffer (fst st)) \<le> DATA_BUFFER_SIZE"
  shows "length (dataBuffer (fst (run_op x st))) \<le> DATA_BUFFER_SIZE"
proof -
  obtain dm w where st: "st = (dm, w)" by (cases st)
  show ?thesis
  proof (cases x)
    case (BufferData d)
    with assms st show ?thesis by (simp add: length_bufferData)
  next
    case SendBufferedData
    with length_sendBufferedData [of dm w] assms st show ?thesis by simp
  qed
qed

lemma run_ops_bounded:
  "length (dataBuffer (fst st)) \<le> DATA_BUFFER_SIZE \<Longrightarrow>
   length (dataBuffer (fst (run_ops ops st))) \<le> DATA_BUFFER_SIZE"
  unfolding run_ops_def
  by (induction ops arbitrary: st) (simp_all add: run_op_bounded)

text \<open>The delivery section of the main loop keeps the bound as well.\<close>

lemma loop_deliver_bounded:
  assumes "length (dataBuffer (fst st)) \<le> DATA_BUFFER_SIZE"
  shows "length (dataBuffer (fst (loop_deliver c d st))) \<le> DATA_BUFFER_SIZE"
proof -
  obtain dm w where st: "st = (dm, w)" by (cases st)
  obtain dm1 w1 where
    drain: "(if hasBufferedData dm then snd (sendBufferedData dm w) else (dm, w)) = (dm1, w1)"
    by (cases "if hasBufferedData dm then snd (sendBufferedData dm w) else (dm, w)")
  have "length (dataBuffer dm1) \<le> length (dataBuffer dm)"
    using drain length_sendBufferedData [of dm w] by (auto split: if_splits)
  with assms st have b: "length (dataBuffer dm1) \<le> DATA_BUFFER_SIZE" by simp
  obtain success w2 where s: "sendData d dm1 w1 = (success, w2)"
    by (cases "sendData d dm1 w1")
  from assms st b drain s show ?thesis
    by (simp add: loop_deliver_def length_bufferData)
qed

text \<open>
  Claim C3. Starting from an empty buffer, the buffer holds at most
  \<open>DATA_BUFFER_SIZE = 100\<close> readings after any sequence of \<open>bufferData\<close> and
  \<open>sendBufferedData\<close>; and \<open>bufferData\<close> on a buffer of exactly 100 readings drops the
  oldest one and appends the new one, which leaves 100 readings.
\<close>

theorem dataBuffer_capacity:
  "(dataBuffer dm0 = [] \<longrightarrow>
      length (dataBuffer (fst (run_ops ops (dm0, w)))) \<le> DATA_BUFFER_SIZE)
   \<and> DATA_BUFFER_SIZE = 100
   \<and> (length (dataBuffer dm) = DATA_BUFFER_SIZE \<longrightarrow>
        bufferData d dm = dm\<lparr>dataBuffer := tl (dataBuffer dm) @ [d]\<rparr>
        \<and> length (dataBuffer (bufferData d dm)) = DATA_BUFFER_SIZE)"
proof (intro conjI impI)
  assume "dataBuffer dm0 = []"
  then show "length (dataBuffer (fst (run_ops ops (dm0, w)))) \<le> DATA_BUFFER_SIZE"
    by (intro run_ops_bounded) simp
next
  show "DATA_BUFFER_SIZE = 100" by (simp add: DATA_BUFFER_SIZE_def)
next
  assume f: "length (dataBuffer dm) = DATA_BUFFER_SIZE"
  then show "bufferData d dm = dm\<lparr>dataBuffer := tl (dataBuffer dm) @ [d]\<rparr>"
    by (simp add: bufferData_def)
  from f show "length (dataBuffer (bufferData d dm)) = DATA_BUFFER_SIZE"
    by (simp add: bufferData_def DATA_BUFFER_SIZE_def)
qed

theorem dataBuffer_capacity_witness:
  "length (dataBuffer (fst (run_ops [BufferData reading0, SendBufferedData, BufferData reading1]
             (DataManager_init, outage_world)))) \<le> 100
   \<and> dataBuffer (bufferData reading1 full_buffer) = replicate 99 reading0 @ [reading1]
   \<and> length (dataBuffer (bufferData reading1 full_buffer)) = 100"
proof -
  have e: "dataBuffer DataManager_init = []" by (simp add: DataManager_init_def)
  have f: "length (dataBuffer full_buffer) = DATA_BUFFER_SIZE"
    by (simp add: full_buffer_def DATA_BUFFER_SIZE_def)
  have t: "tl (replicate 100 reading0) = replicate 99 reading0"
    by simp
  from dataBuffer_capacity [of DataManager_init
      "[BufferData reading0, SendBufferedData, BufferData reading1]" outage_world
      full_buffer reading1] e f t
  show ?thesis by (simp add: full_buffer_def)
qed

section \<open>Properties of the PowerMonitor\<close>

subsection \<open>Energy integration\<close>

lemma updateEnergy_unfold:
  "updateEnergy currentTime s =
     (if currentTime = lastEnergyCalcTime s then s
      else s\<lparr>energyKwh := energyKwh s
               + powerWatts s * (real (unat (currentTime - lastEnergyCalcTime s)) / 3600000) / 1000,
             lastEnergyCalcTime := currentTime\<rparr>)"
  by (simp add: updateEnergy_def Let_def word_greater_zero_iff)

lemma updateEnergy_energy_mono:
  "0 \<le> powerWatts s \<Longrightarrow> energyKwh s \<le> energyKwh (updateEnergy now s)"
  by (simp add: updateEnergy_def Let_def zero_le_mult_iff del: of_nat_unat)

text \<open>
  Claim C1. In a sequence of calls of \<open>updateEnergy\<close>, each made with a stored power
  \<open>\<ge> 0\<close>, the cumulative energy never decreases: the energy before the first call
  followed by the energies after each call is a non-decreasing sequence. The clock
  readings are arbitrary, since the unsigned time difference is never negative.
\<close>

theorem updateEnergy_monotone:
  "list_all (\<lambda>(p, now). 0 \<le> p) cs \<Longrightarrow>
   sorted (energyKwh s # map energyKwh (updateEnergy_calls cs s))"
proof (induction cs arbitrary: s)
  case Nil
  show ?case by simp
next
  case (Cons c cs)
  obtain p now where c: "c = (p, now)" by (cases c)
  let ?s1 = "updateEnergy now (s\<lparr>powerWatts := p\<rparr>)"
  from Cons.prems c have p: "0 \<le> p" and rest: "list_all (\<lambda>(p, now). 0 \<le> p) cs"
    by simp_all
  from p have step: "energyKwh s \<le> energyKwh ?s1"
    using updateEnergy_energy_mono [of "s\<lparr>powerWatts := p\<rparr>" now] by simp
  from Cons.IH [OF rest, of ?s1]
  have tail: "sorted (energyKwh ?s1 # map energyKwh (updateEnergy_calls cs ?s1))" .
  then have "\<forall>e \<in> set (map energyKwh (updateEnergy_calls cs ?s1)). energyKwh ?s1 \<le> e"
    by simp
  with step have "\<forall>e \<in> set (map energyKwh (updateEnergy_calls cs ?s1)). energyKwh s \<le> e"
    by fastforce
  with step tail show ?case by (simp add: c Let_def)
qed

theorem updateEnergy_monotone_witness:
  "list_all (\<lambda>(p, now). 0 \<le> p) [(1000, 3600000), (0, 7200000), (500 :: real, 100 :: ulong)]
   \<and> sorted (energyKwh PowerMonitor_init
        # map energyKwh (updateEnergy_calls [(1000, 3600000), (0, 7200000), (500, 100)]
                           PowerMonitor_init))
   \<and> energyKwh (hd (updateEnergy_calls [(1000, 3600000), (0, 7200000), (500, 100)]
                           PowerMonitor_init)) = 1"
proof -
  have h: "list_all (\<lambda>(p, now). 0 \<le> p)
             [(1000, 3600000), (0, 7200000), (500 :: real, 100 :: ulong)]"
    by simp
  have "energyKwh (hd (updateEnergy_calls [(1000, 3600000), (0, 7200000), (500, 100)]
                           PowerMonitor_init)) = 1"
    by (simp add: Let_def updateEnergy_unfold PowerMonitor_init_def)
  with updateEnergy_monotone [OF h, of PowerMonitor_init] h show ?thesis by simp
qed

text \<open>
  Claim C2, as stated, does not hold: a clock reading below the stored time does not
  skip the integration. With the stored time 1000 and the reading 500 the unsigned
  difference is \<open>2^32 - 500\<close> ms, and at 1 kW the energy grows from 0 to about
  1193 kWh.
\<close>

theorem updateEnergy_backwards_clock_counterexample:
  "(500 :: ulong) \<le> lastEnergyCalcTime clock_ahead
   \<and> energyKwh clock_ahead = 0
   \<and> 1193 < energyKwh (updateEnergy 500 clock_ahead)
   \<and> energyKwh (updateEnergy 500 clock_ahead) < 1194
   \<and> energyKwh (updateEnergy 500 clock_ahead) \<noteq> energyKwh clock_ahead"
proof -
  have d: "unat ((500 :: ulong) - 1000) = 4294966796" by simp
  have n: "(500 :: ulong) \<noteq> 1000" by simp
  have "energyKwh (updateEnergy 500 clock_ahead) = 1073741699 / 900000"
    by (simp only: updateEnergy_unfold clock_ahead_def PowerMonitor_init_def
        PowerMonitor.simps d n if_False)
  then show ?thesis by (simp add: clock_ahead_def PowerMonitor_init_def)
qed

text \<open>
  Claim C2, amended. A call whose clock reading equals the stored time (a zero delta)
  skips the integration: it leaves the whole state, and so the energy, unchanged. For
  any other reading, also one below the stored time, the unsigned delta is positive,
  the integration is not skipped, and the reading is stored as the new time.
\<close>

theorem updateEnergy_zero_delta:
  "(currentTime = lastEnergyCalcTime s \<longrightarrow> updateEnergy currentTime s = s)
   \<and> (currentTime \<noteq> lastEnergyCalcTime s \<longrightarrow>
        0 < currentTime - lastEnergyCalcTime s
        \<and> lastEnergyCalcTime (updateEnergy currentTime s) = currentTime)"
  by (simp add: updateEnergy_def Let_def word_greater_zero_iff)

theorem updateEnergy_zero_delta_witness:
  "updateEnergy 1000 clock_ahead = clock_ahead
   \<and> lastEnergyCalcTime (updateEnergy 500 clock_ahead) = 500
   \<and> lastEnergyCalcTime (updateEnergy 3601000 clock_ahead) = 3601000"
proof -
  have e: "(1000 :: ulong) = lastEnergyCalcTime clock_ahead"
    by (simp add: clock_ahead_def)
  have n: "(500 :: ulong) \<noteq> lastEnergyCalcTime clock_ahead"
    "(3601000 :: ulong) \<noteq> lastEnergyCalcTime clock_ahead"
    by (simp_all add: clock_ahead_def)
  from updateEnergy_zero_delta [of 1000 clock_ahead] e
    updateEnergy_zero_delta [of 500 clock_ahead]
    updateEnergy_zero_delta [of 3601000 clock_ahead] n
  show ?thesis by blast
qed

subsection \<open>Mains voltage\<close>

text \<open>
  Claim C10. \<open>setVoltage\<close> with an argument \<open>\<le> 0\<close> returns the state as it was;
  with an argument \<open>> 0\<close> it stores the argument as mains voltage and changes no
  other field.
\<close>

theorem setVoltage_frame:
  "(v \<le> 0 \<longrightarrow> setVoltage v s = s) \<and> (v > 0 \<longrightarrow> setVoltage v s = s\<lparr>mainVoltage := v\<rparr>)"
  by (simp add: setVoltage_def)

theorem setVoltage_frame_witness:
  "setVoltage (-5) PowerMonitor_init = PowerMonitor_init
   \<and> setVoltage 0 PowerMonitor_init = PowerMonitor_init
   \<and> setVoltage 240 PowerMonitor_init = PowerMonitor_init\<lparr>mainVoltage := 240\<rparr>"
  using setVoltage_frame [of "-5" PowerMonitor_init] setVoltage_frame [of 0 PowerMonitor_init]
    setVoltage_frame [of 240 PowerMonitor_init]
  by simp

text \<open>The mains voltage stays positive, whatever is passed to \<open>setVoltage\<close>.\<close>

lemma setVoltage_positive: "0 < mainVoltage s \<Longrightarrow> 0 < mainVoltage (setVoltage v s)"
  by (simp add: setVoltage_def)

subsection \<open>RMS current and the noise floor\<close>

text \<open>
  Claim C7. For a mean square \<open>ms \<ge> 0\<close> the result is \<open>0\<close> when
  \<open>(sqrt ms / 33) * 2000 * calibrationFactor\<close> is below 0.05, and that value
  otherwise; with \<open>ms = 0.01\<close> and calibration factor 1 it is \<open>(0.1 / 33) * 2000\<close>,
  which is 6.06 to two decimal places. For \<open>ms < 0\<close>, which is not a mean square,
  the expression is NaN in C; it is not below the floor and is returned as it is,
  which is the result \<open>None\<close> of the model.
\<close>

theorem calculateRMSCurrent_noise_floor:
  "(0 \<le> ms \<longrightarrow>
      calculateRMSCurrent ms s =
        Some (let i = (sqrt ms / 33) * 2000 * calibrationFactor s
              in if i < 0.05 then 0 else i))
   \<and> (ms < 0 \<longrightarrow> calculateRMSCurrent ms s = None)
   \<and> (calibrationFactor s = 1 \<longrightarrow>
        calculateRMSCurrent 0.01 s = Some ((0.1 / 33) * 2000)
        \<and> \<bar>(0.1 / 33) * 2000 - 6.06\<bar> < (0.001 :: real))"
proof -
  have "sqrt (0.01) = 0.1"
    by (rule real_sqrt_unique) (simp_all add: power2_eq_square)
  then show ?thesis
    by (simp add: calculateRMSCurrent_def Let_def CT_BURDEN_RESISTOR_def CT_TURNS_RATIO_def)
qed

theorem calculateRMSCurrent_noise_floor_witness:
  "calculateRMSCurrent 0.01 PowerMonitor_init = Some (200 / 33)
   \<and> calculateRMSCurrent (1 / 100000000) PowerMonitor_init = Some 0
   \<and> calculateRMSCurrent 0 PowerMonitor_init = Some 0
   \<and> calculateRMSCurrent (-1) PowerMonitor_init = None"
proof -
  have c: "calibrationFactor PowerMonitor_init = 1" by (simp add: PowerMonitor_init_def)
  have s: "sqrt (1 / 100000000) = 1 / 10000"
    by (rule real_sqrt_unique) (simp_all add: power2_eq_square)
  from calculateRMSCurrent_noise_floor [of "0.01" PowerMonitor_init]
    calculateRMSCurrent_noise_floor [of "1 / 100000000" PowerMonitor_init]
    calculateRMSCurrent_noise_floor [of 0 PowerMonitor_init]
    calculateRMSCurrent_noise_floor [of "-1" PowerMonitor_init] c s
  show ?thesis by (simp add: Let_def)
qed

subsection \<open>A whole measurement cycle\<close>

text \<open>
  \<open>PowerMonitor::update\<close> never meets the square root of a negative number, the
  current and the power it stores are not negative while the mains voltage is positive,
  and the energy does not decrease.
\<close>

lemma readCurrentSensor_loop_nonneg:
  "0 \<le> acc \<Longrightarrow> 0 \<le> readCurrentSensor_loop analogRead n i acc"
proof (induction analogRead n i acc rule: readCurrentSensor_loop.induct)
  case (1 analogRead sampleCount i sumSquared)
  show ?case
  proof (cases "i < sampleCount")
    case True
    with "1" show ?thesis by (simp add: Let_def)
  next
    case False
    with "1.prems" show ?thesis by simp
  qed
qed

lemma readCurrentSensor_nonneg: "0 \<le> readCurrentSensor analogRead"
  by (simp add: readCurrentSensor_def Let_def readCurrentSensor_loop_nonneg
      del: readCurrentSensor_loop.simps)

lemma calculateRMSCurrent_nonneg:
  assumes "calculateRMSCurrent ms s = Some c"
  shows "0 \<le> c"
proof -
  define x where "x = sqrt ms / CT_BURDEN_RESISTOR * CT_TURNS_RATIO * calibrationFactor s"
  from assms have "c = (if x < 0.05 then 0 else x)"
    unfolding calculateRMSCurrent_def Let_def x_def [symmetric]
    by (simp split: if_splits)
  then show ?thesis by (simp split: if_splits)
qed

lemma PowerMonitor_update_total:
  "\<exists>s'. PowerMonitor_update analogRead now s = Some s'"
  using readCurrentSensor_nonneg [of analogRead]
  by (simp add: PowerMonitor_update_def Let_def calculateRMSCurrent_def)

lemma PowerMonitor_update_invariants:
  assumes "PowerMonitor_update analogRead now s = Some s'" and "0 < mainVoltage s"
  shows "0 \<le> currentRMS s'" and "0 \<le> powerWatts s'" and "energyKwh s \<le> energyKwh s'"
    and "mainVoltage s' = mainVoltage s" and "calibrationFactor s' = calibrationFactor s"
proof -
  from assms(1) obtain c where c: "calculateRMSCurrent (readCurrentSensor analogRead) s = Some c"
    and s': "s' = updateEnergy now (calculatePower (s\<lparr>currentRMS := c\<rparr>))"
    by (auto simp: PowerMonitor_update_def Let_def split: option.splits)
  from calculateRMSCurrent_nonneg [OF c] have c0: "0 \<le> c" .
  with assms(2) have p: "0 \<le> powerWatts (calculatePower (s\<lparr>currentRMS := c\<rparr>))"
    by (simp add: calculatePower_def)
  show "0 \<le> currentRMS s'" using c0 by (simp add: s' updateEnergy_unfold calculatePower_def)
  show "0 \<le> powerWatts s'" using p by (simp add: s' updateEnergy_unfold)
  show "energyKwh s \<le> energyKwh s'"
    using updateEnergy_energy_mono [OF p, of now] by (simp add: s' calculatePower_def)
  show "mainVoltage s' = mainVoltage s" by (simp add: s' updateEnergy_unfold calculatePower_def)
  show "calibrationFactor s' = calibrationFactor s"
    by (simp add: s' updateEnergy_unfold calculatePower_def)
qed

section \<open>Properties of the AiProcessor\<close>

subsection \<open>The loops as sums\<close>

lemma sum_power_loop_eq:
  "sum_power_loop h i n acc = acc + (\<Sum>k = i..<n. power_watts (h ! k))"
proof (induction h i n acc rule: sum_power_loop.induct)
  case (1 h i n acc)
  show ?case
  proof (cases "i < n")
    case True
    with "1" show ?thesis
      by (simp add: sum.atLeast_Suc_lessThan add.assoc)
  next
    case False
    then show ?thesis by simp
  qed
qed

lemma regression_loop_eq:
  "regression_loop h i n (a, b, c, d) =
     (a + (\<Sum>k = i..<n. real k),
      b + (\<Sum>k = i..<n. power_watts (h ! k)),
      c + (\<Sum>k = i..<n. real k * power_watts (h ! k)),
      d + (\<Sum>k = i..<n. real k * real k))"
proof (induction h i n "(a, b, c, d)" arbitrary: a b c d rule: regression_loop.induct)
  case (1 h i n sumX sumY sumXY sumX2)
  show ?case
  proof (cases "i < n")
    case True
    with "1" show ?thesis
      by (simp add: sum.atLeast_Suc_lessThan add.assoc Let_def)
  next
    case False
    then show ?thesis by simp
  qed
qed

lemma sum_nth_take:
  "n \<le> length xs \<Longrightarrow> (\<Sum>k = 0..<n. f (xs ! k)) = sum_list (map f (take n xs))"
  for f :: "'a \<Rightarrow> real"
  by (simp add: sum_list_sum_nth)

lemma sum_nth_drop:
  "(\<Sum>k = m..<length xs. f (xs ! k)) = sum_list (map f (drop m xs))"
  for f :: "'a \<Rightarrow> real"
proof (cases "m \<le> length xs")
  case True
  have "(\<Sum>k = m..<length xs. f (xs ! k)) = (\<Sum>k = 0 + m..<(length xs - m) + m. f (xs ! k))"
    using True by simp
  also have "\<dots> = (\<Sum>k = 0..<length xs - m. f (xs ! (k + m)))"
    by (rule sum.shift_bounds_nat_ivl)
  also have "\<dots> = sum_list (map f (drop m xs))"
    by (simp add: sum_list_sum_nth add.commute)
  finally show ?thesis .
next
  case False
  then show ?thesis by simp
qed

lemma sum_power_loop_take:
  "n \<le> length h \<Longrightarrow> sum_power_loop h 0 n 0 = sum_list (map power_watts (take n h))"
  by (simp only: sum_power_loop_eq sum_nth_take)

lemma sum_power_loop_drop:
  "sum_power_loop h m (length h) 0 = sum_list (map power_watts (drop m h))"
  by (simp only: sum_power_loop_eq sum_nth_drop)

subsection \<open>Anomaly detection\<close>




























subsection \<open>Trend classification\<close>

lemma analyzeTrend_full:
  assumes "length (dataHistory s) = TREND_WINDOW_SIZE"
    and "sample_mean (first_half (map power_watts (dataHistory s))) \<noteq> 0"
  shows "analyzeTrend s =
     (let pc = percent_change (map power_watts (dataHistory s))
      in if \<bar>pc\<bar> < 5 then Stable
         else if pc > 0 then Increasing (Pct pc) else Decreasing (Pct (- pc)))"
proof -
  let ?h = "dataHistory s"
  from assms(1) have l: "length ?h = 10" by (simp add: TREND_WINDOW_SIZE_def)
  have "sum_power_loop ?h 0 5 0 = sum_list (map power_watts (take 5 ?h))"
    using l by (intro sum_power_loop_take) simp
  then have f: "sum_power_loop ?h 0 5 0 = 5 * sample_mean (first_half (map power_watts ?h))"
    using l by (simp add: sample_mean_def first_half_def take_map)
  have "sum_power_loop ?h 5 (length ?h) 0 = sum_list (map power_watts (drop 5 ?h))"
    by (rule sum_power_loop_drop)
  then have g: "sum_power_loop ?h 5 10 0 = 5 * sample_mean (second_half (map power_watts ?h))"
    using l by (simp add: sample_mean_def second_half_def drop_map)
  show ?thesis
    using assms(2) l
    by (simp add: analyzeTrend_def TREND_WINDOW_SIZE_def Let_def f g percent_change_def
        del: sum_power_loop.simps)
qed

text \<open>
  Claim C8. With fewer than \<open>TREND_WINDOW_SIZE = 10\<close> readings \<open>analyzeTrend\<close>
  reports insufficient data. With exactly 10 readings and a first-half mean other than
  0, the percent change is the second-half mean minus the first-half mean, over the
  first-half mean, times 100: the report is stable when its magnitude is below 5,
  increasing with the percentage when it is positive, and decreasing with the
  magnitude of the percentage when it is negative. The window of five readings of
  100 W followed by five of 200 W is reported as increasing by 100 percent.
\<close>

theorem analyzeTrend_classification:
  "(length (dataHistory s) < TREND_WINDOW_SIZE \<longrightarrow> analyzeTrend s = InsufficientData)
   \<and> TREND_WINDOW_SIZE = 10
   \<and> (length (dataHistory s) = TREND_WINDOW_SIZE
        \<and> sample_mean (first_half (map power_watts (dataHistory s))) \<noteq> 0 \<longrightarrow>
        analyzeTrend s =
          (let pc = percent_change (map power_watts (dataHistory s))
           in if \<bar>pc\<bar> < 5 then Stable
              else if pc > 0 then Increasing (Pct pc) else Decreasing (Pct (- pc))))
   \<and> (map power_watts (dataHistory s) = [100, 100, 100, 100, 100, 200, 200, 200, 200, 200] \<longrightarrow>
        analyzeTrend s = Increasing (Pct 100))"
proof (intro conjI impI)
  assume "length (dataHistory s) < TREND_WINDOW_SIZE"
  then show "analyzeTrend s = InsufficientData" by (simp add: analyzeTrend_def)
next
  show "TREND_WINDOW_SIZE = 10" by (simp add: TREND_WINDOW_SIZE_def)
next
  assume "length (dataHistory s) = TREND_WINDOW_SIZE
        \<and> sample_mean (first_half (map power_watts (dataHistory s))) \<noteq> 0"
  then show "analyzeTrend s =
          (let pc = percent_change (map power_watts (dataHistory s))
           in if \<bar>pc\<bar> < 5 then Stable
              else if pc > 0 then Increasing (Pct pc) else Decreasing (Pct (- pc)))"
    by (simp add: analyzeTrend_full)
next
  assume e: "map power_watts (dataHistory s)
               = [100, 100, 100, 100, 100, 200, 200, 200, 200, 200]"
  then have "length (map power_watts (dataHistory s)) = 10" by simp
  then have l: "length (dataHistory s) = TREND_WINDOW_SIZE"
    by (simp add: TREND_WINDOW_SIZE_def)
  have m: "sample_mean (first_half (map power_watts (dataHistory s))) = 100"
    "sample_mean (second_half (map power_watts (dataHistory s))) = 200"
    by (simp_all add: e sample_mean_def first_half_def second_half_def)
  then have "sample_mean (first_half (map power_watts (dataHistory s))) \<noteq> 0" by simp
  from analyzeTrend_full [OF l this] show "analyzeTrend s = Increasing (Pct 100)"
    by (simp add: percent_change_def m)
qed

theorem analyzeTrend_classification_witness:
  "analyzeTrend (with_history step_history) = Increasing (Pct 100)
   \<and> analyzeTrend (with_history short_history) = InsufficientData
   \<and> analyzeTrend (with_history falling_history) = Decreasing (Pct (500 / 7))"
proof -
  have p: "map power_watts (dataHistory (with_history step_history))
             = [100, 100, 100, 100, 100, 200, 200, 200, 200, 200]"
    "map power_watts (dataHistory (with_history falling_history))
       = [9, 8, 7, 6, 5, 4, 3, 2, 1, 0]"
    by (simp_all add: with_history_def step_history_def falling_history_def
        mk_reading_def)
  have l: "length (dataHistory (with_history short_history)) < TREND_WINDOW_SIZE"
    "length (dataHistory (with_history falling_history)) = TREND_WINDOW_SIZE"
    by (simp_all add: with_history_def short_history_def falling_history_def
        TREND_WINDOW_SIZE_def)
  have m: "sample_mean (first_half [9, 8, 7, 6, 5, 4, 3, 2, 1, 0]) = 7"
    "percent_change [9, 8, 7, 6, 5, 4, 3, 2, 1, 0] = - (500 / 7)"
    by (simp_all add: percent_change_def sample_mean_def first_half_def second_half_def)
  from analyzeTrend_classification [of "with_history step_history"]
    analyzeTrend_classification [of "with_history short_history"]
    analyzeTrend_classification [of "with_history falling_history"] l
  show ?thesis unfolding p m by (simp add: Let_def)
qed

text \<open>
  With a first-half mean of exactly 0 the quotient is not a number of the model: the
  report carries an infinite percentage, or NaN when the second-half mean is 0 too.
\<close>

lemma analyzeTrend_zero_first_half:
  assumes "length (dataHistory s) = TREND_WINDOW_SIZE"
    and "sample_mean (first_half (map power_watts (dataHistory s))) = 0"
  shows "analyzeTrend s =
     (let lastAvg = sample_mean (second_half (map power_watts (dataHistory s)))
      in if lastAvg > 0 then Increasing PctInf
         else if lastAvg < 0 then Decreasing PctInf else Decreasing PctNaN)"
proof -
  let ?h = "dataHistory s"
  from assms(1) have l: "length ?h = 10" by (simp add: TREND_WINDOW_SIZE_def)
  have "sum_power_loop ?h 0 5 0 = sum_list (map power_watts (take 5 ?h))"
    using l by (intro sum_power_loop_take) simp
  then have f: "sum_power_loop ?h 0 5 0 = 5 * sample_mean (first_half (map power_watts ?h))"
    using l by (simp add: sample_mean_def first_half_def take_map)
  have "sum_power_loop ?h 5 (length ?h) 0 = sum_list (map power_watts (drop 5 ?h))"
    by (rule sum_power_loop_drop)
  then have g: "sum_power_loop ?h 5 10 0 = 5 * sample_mean (second_half (map power_watts ?h))"
    using l by (simp add: sample_mean_def second_half_def drop_map)
  show ?thesis
    using assms(2) l
    by (simp add: analyzeTrend_def TREND_WINDOW_SIZE_def Let_def f g
        del: sum_power_loop.simps)
qed

subsection \<open>Prediction by linear regression\<close>

text \<open>The divisor of the slope depends on the window length only, and is positive.\<close>

lemma sum_index: "(\<Sum>k = 0..<n. real k) = real n * (real n - 1) / 2"
  by (induction n) (simp_all add: field_simps)

lemma sum_index_sq:
  "(\<Sum>k = 0..<n. real k * real k) = real n * (real n - 1) * (2 * real n - 1) / 6"
  by (induction n) (simp_all add: field_simps)

lemma regression_denominator:
  "real n * (\<Sum>k = 0..<n. real k * real k) - (\<Sum>k = 0..<n. real k) * (\<Sum>k = 0..<n. real k)
     = (real n)\<^sup>2 * ((real n)\<^sup>2 - 1) / 12"
  by (simp add: sum_index sum_index_sq power2_eq_square field_simps)

lemma regression_denominator_pos:
  assumes "2 \<le> n"
  shows "0 < real n * (\<Sum>k = 0..<n. real k * real k)
               - (\<Sum>k = 0..<n. real k) * (\<Sum>k = 0..<n. real k)"
proof -
  from assms have "1 < real n" by simp
  then have "1 < (real n)\<^sup>2" by (simp add: power2_eq_square less_1_mult)
  with assms show ?thesis by (simp add: regression_denominator)
qed

text \<open>The sums of the code against the centred sums of the textbook form.\<close>

lemma sum_centered_product:
  fixes f g :: "nat \<Rightarrow> real"
  shows "(\<Sum>k = 0..<n. (f k - xb) * (g k - yb))
     = (\<Sum>k = 0..<n. f k * g k) - xb * (\<Sum>k = 0..<n. g k) - yb * (\<Sum>k = 0..<n. f k)
       + real n * (xb * yb)"
proof -
  have "(\<Sum>k = 0..<n. (f k - xb) * (g k - yb))
      = (\<Sum>k = 0..<n. f k * g k - xb * g k - yb * f k + xb * yb)"
    by (rule sum.cong) (simp_all add: algebra_simps)
  also have "\<dots> = (\<Sum>k = 0..<n. f k * g k) - (\<Sum>k = 0..<n. xb * g k)
                    - (\<Sum>k = 0..<n. yb * f k) + (\<Sum>k = 0..<n. xb * yb)"
    by (simp add: sum.distrib sum_subtractf)
  also have "\<dots> = (\<Sum>k = 0..<n. f k * g k) - xb * (\<Sum>k = 0..<n. g k)
                    - yb * (\<Sum>k = 0..<n. f k) + real n * (xb * yb)"
    by (simp add: sum_distrib_left)
  finally show ?thesis .
qed

lemma sample_mean_index: "sample_mean (map real [0..<n]) = (\<Sum>k = 0..<n. real k) / real n"
  by (simp add: sample_mean_def interv_sum_list_conv_sum_set_nat)

lemma sample_mean_nth: "sample_mean ys = (\<Sum>k = 0..<length ys. ys ! k) / real (length ys)"
  by (simp add: sample_mean_def sum_list_sum_nth)

lemma ols_slope_closed_form:
  assumes "2 \<le> length ys"
  shows "ols_slope ys =
     (real (length ys) * (\<Sum>k = 0..<length ys. real k * ys ! k)
        - (\<Sum>k = 0..<length ys. real k) * (\<Sum>k = 0..<length ys. ys ! k))
     / (real (length ys) * (\<Sum>k = 0..<length ys. real k * real k)
        - (\<Sum>k = 0..<length ys. real k) * (\<Sum>k = 0..<length ys. real k))"
proof -
  define n where "n = length ys"
  define Sx where "Sx = (\<Sum>k = 0..<n. real k)"
  define Sy where "Sy = (\<Sum>k = 0..<n. ys ! k)"
  define Sxy where "Sxy = (\<Sum>k = 0..<n. real k * ys ! k)"
  define Sxx where "Sxx = (\<Sum>k = 0..<n. real k * real k)"
  from assms have n: "real n \<noteq> 0" by (auto simp: n_def)
  have num: "(\<Sum>k = 0..<n. (real k - Sx / real n) * (ys ! k - Sy / real n))
               = (real n * Sxy - Sx * Sy) / real n"
    unfolding sum_centered_product Sx_def [symmetric] Sy_def [symmetric] Sxy_def [symmetric]
    using n by (simp add: field_simps)
  have den: "(\<Sum>k = 0..<n. (real k - Sx / real n)\<^sup>2) = (real n * Sxx - Sx * Sx) / real n"
    unfolding power2_eq_square sum_centered_product Sx_def [symmetric] Sxx_def [symmetric]
    using n by (simp add: field_simps)
  have "ols_slope ys = ((real n * Sxy - Sx * Sy) / real n) / ((real n * Sxx - Sx * Sx) / real n)"
    unfolding ols_slope_def Let_def sample_mean_index sample_mean_nth
      interv_sum_list_conv_sum_set_nat
    by (simp add: num den n_def [symmetric] Sx_def [symmetric] Sy_def [symmetric])
  also have "\<dots> = (real n * Sxy - Sx * Sy) / (real n * Sxx - Sx * Sx)"
    using n by simp
  finally show ?thesis
    by (simp add: n_def Sx_def Sy_def Sxy_def Sxx_def)
qed

lemma ols_intercept_closed_form:
  "ols_intercept ys =
     ((\<Sum>k = 0..<length ys. ys ! k) - ols_slope ys * (\<Sum>k = 0..<length ys. real k))
       / real (length ys)"
  by (simp add: ols_intercept_def sample_mean_index sample_mean_nth diff_divide_distrib)

text \<open>
  The line of \<open>ols_slope\<close> and \<open>ols_intercept\<close> is the least-squares line: the
  squared error of any line exceeds its squared error by the sum of the squared
  differences of the two lines at the indices, so no line has a smaller squared
  error, and none but itself has the same.
\<close>

lemma ols_error_decomposition:
  assumes "2 \<le> length ys"
  shows "squared_error ys a b
           = squared_error ys (ols_intercept ys) (ols_slope ys)
             + (\<Sum>k = 0..<length ys. ((ols_intercept ys - a) + (ols_slope ys - b) * real k)\<^sup>2)"
proof -
  define n where "n = length ys"
  define Sx where "Sx = (\<Sum>k = 0..<n. real k)"
  define Sy where "Sy = (\<Sum>k = 0..<n. ys ! k)"
  define Sxy where "Sxy = (\<Sum>k = 0..<n. real k * ys ! k)"
  define Sxx where "Sxx = (\<Sum>k = 0..<n. real k * real k)"
  define D where "D = real n * Sxx - Sx * Sx"
  define b0 where "b0 = ols_slope ys"
  define a0 where "a0 = ols_intercept ys"
  define r where "r = (\<lambda>k. ys ! k - (a0 + b0 * real k))"
  define da where "da = a0 - a"
  define db where "db = b0 - b"
  from assms have n: "real n \<noteq> 0" by (auto simp: n_def)
  from assms have "2 \<le> n" by (simp add: n_def)
  from regression_denominator_pos [OF this] have D: "D \<noteq> 0"
    by (simp add: D_def Sxx_def Sx_def)
  have b0: "b0 = (real n * Sxy - Sx * Sy) / D"
    unfolding b0_def ols_slope_closed_form [OF assms]
    by (simp add: D_def n_def Sx_def Sy_def Sxy_def Sxx_def)
  have a0: "a0 = (Sy - b0 * Sx) / real n"
    unfolding a0_def b0_def ols_intercept_closed_form
    by (simp add: n_def Sx_def Sy_def)
  have "(\<Sum>k = 0..<n. r k) = Sy - (\<Sum>k = 0..<n. a0) - b0 * Sx"
    unfolding r_def Sy_def Sx_def
    by (simp add: sum_subtractf sum.distrib sum_distrib_left algebra_simps)
  also have "\<dots> = 0"
    using n by (simp add: a0 field_simps)
  finally have r0: "(\<Sum>k = 0..<n. r k) = 0" .
  have "(\<Sum>k = 0..<n. real k * r k)
          = (\<Sum>k = 0..<n. real k * ys ! k - a0 * real k - b0 * (real k * real k))"
    unfolding r_def by (rule sum.cong) (simp_all add: algebra_simps)
  also have "\<dots> = Sxy - a0 * Sx - b0 * Sxx"
    unfolding Sxy_def Sx_def Sxx_def
    by (simp add: sum_subtractf sum_distrib_left)
  also have "\<dots> = (real n * Sxy - Sx * Sy - b0 * D) / real n"
    using n by (simp add: a0 D_def field_simps)
  also have "\<dots> = 0"
    using D by (simp add: b0)
  finally have r1: "(\<Sum>k = 0..<n. real k * r k) = 0" .
  have "squared_error ys a b = (\<Sum>k = 0..<n. (ys ! k - (a + b * real k))\<^sup>2)"
    by (simp add: squared_error_def n_def interv_sum_list_conv_sum_set_nat)
  also have "\<dots> = (\<Sum>k = 0..<n. (r k)\<^sup>2 + (2 * da) * r k + (2 * db) * (real k * r k)
                                  + (da + db * real k)\<^sup>2)"
    by (rule sum.cong) (simp_all add: r_def da_def db_def power2_eq_square algebra_simps)
  also have "\<dots> = (\<Sum>k = 0..<n. (r k)\<^sup>2) + (2 * da) * (\<Sum>k = 0..<n. r k)
                     + (2 * db) * (\<Sum>k = 0..<n. real k * r k)
                     + (\<Sum>k = 0..<n. (da + db * real k)\<^sup>2)"
    by (simp add: sum.distrib sum_distrib_left)
  also have "\<dots> = (\<Sum>k = 0..<n. (r k)\<^sup>2) + (\<Sum>k = 0..<n. (da + db * real k)\<^sup>2)"
    by (simp add: r0 r1)
  finally have e: "squared_error ys a b
      = (\<Sum>k = 0..<n. (r k)\<^sup>2) + (\<Sum>k = 0..<n. (da + db * real k)\<^sup>2)" .
  have "squared_error ys a0 b0 = (\<Sum>k = 0..<n. (r k)\<^sup>2)"
    by (simp add: squared_error_def n_def interv_sum_list_conv_sum_set_nat r_def)
  with e show ?thesis
    by (simp add: a0_def b0_def da_def db_def n_def)
qed

lemma ols_least_squares:
  assumes "2 \<le> length ys"
  shows "squared_error ys (ols_intercept ys) (ols_slope ys) \<le> squared_error ys a b"
proof -
  have "0 \<le> (\<Sum>k = 0..<length ys. ((ols_intercept ys - a) + (ols_slope ys - b) * real k)\<^sup>2)"
    by (rule sum_nonneg) simp
  with ols_error_decomposition [OF assms, of a b] show ?thesis by simp
qed

lemma ols_unique:
  assumes "2 \<le> length ys"
    and "squared_error ys a b \<le> squared_error ys (ols_intercept ys) (ols_slope ys)"
  shows "a = ols_intercept ys \<and> b = ols_slope ys"
proof -
  let ?t = "\<lambda>k. ((ols_intercept ys - a) + (ols_slope ys - b) * real k)\<^sup>2"
  have nonneg: "0 \<le> (\<Sum>k = 0..<length ys. ?t k)"
    by (rule sum_nonneg) simp
  with ols_error_decomposition [OF assms(1), of a b] assms(2)
  have "(\<Sum>k = 0..<length ys. ?t k) = 0" by simp
  then have z: "\<forall>k \<in> {0..<length ys}. ?t k = 0"
    by (subst (asm) sum_nonneg_eq_0_iff) simp_all
  from assms(1) have "0 \<in> {0..<length ys}" "1 \<in> {0..<length ys}" by auto
  with z have "?t 0 = 0" "?t 1 = 0" by blast+
  then show ?thesis by simp
qed


lemma sum_nth_map_power:
  "(\<Sum>k = 0..<length h. f k * power_watts (h ! k))
     = (\<Sum>k = 0..<length h. f k * map power_watts h ! k)"
  by (rule sum.cong) simp_all

lemma updatePrediction_regression:
  assumes "2 \<le> length (dataHistory s)"
  shows "updatePrediction s =
           s\<lparr>powerPrediction :=
               max 0 (ols_line (map power_watts (dataHistory s))
                        (real (length (dataHistory s))))\<rparr>"
proof -
  let ?h = "dataHistory s"
  let ?ys = "map power_watts ?h"
  have l: "2 \<le> length ?ys" using assms by simp
  have sy: "(\<Sum>k = 0..<length ?h. power_watts (?h ! k)) = (\<Sum>k = 0..<length ?ys. ?ys ! k)"
    using sum_nth_map_power [of "\<lambda>k. 1" ?h] by simp
  have sxy: "(\<Sum>k = 0..<length ?h. real k * power_watts (?h ! k))
               = (\<Sum>k = 0..<length ?ys. real k * ?ys ! k)"
    using sum_nth_map_power [of real ?h] by simp
  have slope: "(real (length ?h) * (\<Sum>k = 0..<length ?h. real k * power_watts (?h ! k))
        - (\<Sum>k = 0..<length ?h. real k) * (\<Sum>k = 0..<length ?h. power_watts (?h ! k)))
     / (real (length ?h) * (\<Sum>k = 0..<length ?h. real k * real k)
        - (\<Sum>k = 0..<length ?h. real k) * (\<Sum>k = 0..<length ?h. real k))
     = ols_slope ?ys"
    unfolding sy sxy ols_slope_closed_form [OF l] by simp
  have icpt: "((\<Sum>k = 0..<length ?h. power_watts (?h ! k))
                 - ols_slope ?ys * (\<Sum>k = 0..<length ?h. real k)) / real (length ?h)
     = ols_intercept ?ys"
    unfolding sy ols_intercept_closed_form by simp
  from assms have "\<not> length ?h < 2" by simp
  then show ?thesis
    unfolding updatePrediction_def regression_loop_eq
    by (simp only: if_False Let_def prod.case add_0 slope icpt ols_line_def max_def not_less
        split: if_splits) auto
qed

text \<open>
  The history never exceeds the window size, and after \<open>update\<close> with a reading of
  power \<open>\<ge> 0\<close> the prediction is not negative, whatever the length of the history
  (with a single reading the prediction is the power of that reading).
\<close>

lemma AiProcessor_update_history:
  "length (dataHistory s) \<le> TREND_WINDOW_SIZE \<Longrightarrow>
   length (dataHistory (AiProcessor_update d s)) \<le> TREND_WINDOW_SIZE"
  by (auto simp: AiProcessor_update_def updatePrediction_def Let_def TREND_WINDOW_SIZE_def
      split: prod.splits)

lemma updatePrediction_nonneg:
  "2 \<le> length (dataHistory s) \<Longrightarrow> 0 \<le> getPredictedPower (updatePrediction s)"
  by (simp add: updatePrediction_regression getPredictedPower_def)

lemma AiProcessor_update_prediction_nonneg:
  assumes "0 \<le> power_watts d"
  shows "0 \<le> getPredictedPower (AiProcessor_update d s)"
proof -
  let ?s1 = "s\<lparr>dataHistory := dataHistory s @ [d]\<rparr>"
  let ?s2 = "if length (dataHistory ?s1) > TREND_WINDOW_SIZE
             then ?s1\<lparr>dataHistory := tl (dataHistory ?s1)\<rparr> else ?s1"
  have u: "AiProcessor_update d s = updatePrediction ?s2"
    by (simp add: AiProcessor_update_def Let_def)
  have ne: "dataHistory ?s2 \<noteq> []" "last (dataHistory ?s2) = d"
    by (cases "dataHistory s"; simp add: TREND_WINDOW_SIZE_def)+
  show ?thesis
  proof (cases "2 \<le> length (dataHistory ?s2)")
    case True
    from updatePrediction_nonneg [OF True] show ?thesis unfolding u .
  next
    case False
    then have "length (dataHistory ?s2) < 2" by simp
    with ne assms show ?thesis
      unfolding u by (simp add: updatePrediction_def getPredictedPower_def)
  qed
qed

text \<open>
  Claim C9. For a full window of \<open>TREND_WINDOW_SIZE\<close> readings, the prediction that
  \<open>updatePrediction\<close> stores, and \<open>getPredictedPower\<close> returns, is the value at index
  \<open>TREND_WINDOW_SIZE\<close> of the least-squares line of power against the positions
  \<open>0, \<dots>, TREND_WINDOW_SIZE - 1\<close>, or 0 when that value is negative; that line
  is the one line that minimises the sum of squared residuals; the divisor of its
  slope is positive, whatever the powers are; and the value returned is not negative.
\<close>

theorem updatePrediction_least_squares:
  assumes "length (dataHistory s) = TREND_WINDOW_SIZE"
  shows "getPredictedPower (updatePrediction s)
           = max 0 (ols_line (map power_watts (dataHistory s)) (real TREND_WINDOW_SIZE))
         \<and> (\<forall>a b. squared_error (map power_watts (dataHistory s))
                      (ols_intercept (map power_watts (dataHistory s)))
                      (ols_slope (map power_watts (dataHistory s)))
                    \<le> squared_error (map power_watts (dataHistory s)) a b)
         \<and> (\<forall>a b. squared_error (map power_watts (dataHistory s)) a b
                    \<le> squared_error (map power_watts (dataHistory s))
                        (ols_intercept (map power_watts (dataHistory s)))
                        (ols_slope (map power_watts (dataHistory s)))
                  \<longrightarrow> a = ols_intercept (map power_watts (dataHistory s))
                      \<and> b = ols_slope (map power_watts (dataHistory s)))
         \<and> 0 < real TREND_WINDOW_SIZE * (\<Sum>k = 0..<TREND_WINDOW_SIZE. real k * real k)
                 - (\<Sum>k = 0..<TREND_WINDOW_SIZE. real k) * (\<Sum>k = 0..<TREND_WINDOW_SIZE. real k)
         \<and> 0 \<le> getPredictedPower (updatePrediction s)
         \<and> dataHistory (updatePrediction s) = dataHistory s"
proof -
  from assms have l: "2 \<le> length (dataHistory s)" by (simp add: TREND_WINDOW_SIZE_def)
  then have m: "2 \<le> length (map power_watts (dataHistory s))" by simp
  from ols_least_squares [OF m] ols_unique [OF m] updatePrediction_regression [OF l] assms
    regression_denominator_pos [OF l]
  show ?thesis by (simp add: getPredictedPower_def)
qed

lemma ols_line_step: "ols_line [100, 100, 100, 100, 100, 200, 200, 200, 200, 200] 10 = 700 / 3"
  by (simp add: ols_line_def ols_intercept_def ols_slope_def sample_mean_def Let_def upt_rec
      power2_eq_square)

lemma ols_line_falling: "ols_line [9, 8, 7, 6, 5, 4, 3, 2, 1, 0] 10 = -1"
  by (simp add: ols_line_def ols_intercept_def ols_slope_def sample_mean_def Let_def upt_rec
      power2_eq_square)

theorem updatePrediction_least_squares_witness:
  "length step_history = TREND_WINDOW_SIZE
   \<and> getPredictedPower (updatePrediction (with_history step_history)) = 700 / 3
   \<and> getPredictedPower (updatePrediction (with_history falling_history)) = 0"
proof -
  have l: "length (dataHistory (with_history step_history)) = TREND_WINDOW_SIZE"
    "length (dataHistory (with_history falling_history)) = TREND_WINDOW_SIZE"
    by (simp_all add: with_history_def step_history_def falling_history_def
        TREND_WINDOW_SIZE_def)
  have p: "map power_watts (dataHistory (with_history step_history))
             = [100, 100, 100, 100, 100, 200, 200, 200, 200, 200]"
    "map power_watts (dataHistory (with_history falling_history))
       = [9, 8, 7, 6, 5, 4, 3, 2, 1, 0]"
    by (simp_all add: with_history_def step_history_def falling_history_def
        mk_reading_def)
  have n: "real TREND_WINDOW_SIZE = 10" by (simp add: TREND_WINDOW_SIZE_def)
  from updatePrediction_least_squares [OF l(1)]
  have a: "getPredictedPower (updatePrediction (with_history step_history)) = 700 / 3"
    unfolding p n ols_line_step by simp
  from updatePrediction_least_squares [OF l(2)]
  have b: "getPredictedPower (updatePrediction (with_history falling_history)) = 0"
    unfolding p n ols_line_falling by simp
  from l a b show ?thesis by (simp add: with_history_def)
qed

end
